theory Spec2Isabelle
  imports Main "HOL-Library.Code_Target_Nat"
begin

section \<open>libcsv: a ragged text buffer with a CSV tokenizer, loader and serializer\<close>

text \<open>
  The embedding follows \<^verbatim>\<open>csv.h\<close>. Conventions:

  \<^item> A byte is a \<^typ>\<open>char\<close>. \<^verbatim>\<open>char\<close> is taken to be signed, as on the platforms
    where the loader terminates at all: the value \<^verbatim>\<open>getc\<close> returns is stored in a
    \<^verbatim>\<open>char\<close> before it is compared with \<^verbatim>\<open>EOF\<close>, so the byte 0xFF and the end of the
    stream are the same \<^verbatim>\<open>char\<close>.
  \<^item> A region of memory handed to the library (\<^verbatim>\<open>dest\<close>, the tokenizer's \<^verbatim>\<open>tmp\<close>) is
    the list of its bytes. The C string held in a region is the part before its first
    null byte.
  \<^item> \<^verbatim>\<open>size_t\<close> values are natural numbers; \<^verbatim>\<open>x - 1\<close> wraps to \<^verbatim>\<open>SIZE_MAX\<close> at
    \<^verbatim>\<open>x = 0\<close> and \<^verbatim>\<open>x + 1\<close> wraps to 0 at \<^verbatim>\<open>SIZE_MAX\<close>, written out.
  \<^item> The arrays \<^verbatim>\<open>buffer->field\<close> and \<^verbatim>\<open>buffer->field[i]\<close> are lists; the counters
    \<^verbatim>\<open>buffer->rows\<close> and \<^verbatim>\<open>buffer->width[i]\<close> are read off them.
  \<^item> An access outside an array is a memory fault: the operation returns \<open>None\<close>.
  \<^item> \<^verbatim>\<open>malloc\<close> and \<^verbatim>\<open>realloc\<close> return a non-null pointer when asked for at least
    one byte, except where an operation is given an allocator: \<^verbatim>\<open>append_field\<close>,
    \<^verbatim>\<open>append_row\<close> and \<^verbatim>\<open>remove_last_row\<close>, whose codes report the failure. Asked for
    no byte, \<^verbatim>\<open>realloc\<close> frees the block and returns the null pointer, as the GNU C
    library does.
  \<^item> \<^verbatim>\<open>int\<close> values (return codes, the loader's cursors) are integers; a count is never
    so large that its conversion to \<^verbatim>\<open>int\<close> changes it.
\<close>

subsection \<open>Bytes and C strings\<close>

definition NUL :: char where
  "NUL = CHR 0x00"

definition newline :: char where
  "newline = CHR 0x0A"

definition EOF :: char where
  \<comment> \<open>\<^verbatim>\<open>(char) EOF\<close>, that is \<^verbatim>\<open>(char) -1\<close>\<close>
  "EOF = CHR 0xFF"

definition SIZE_MAX :: nat where
  "SIZE_MAX = 2 ^ 64 - 1"

definition size_dec :: "nat \<Rightarrow> nat" where
  \<comment> \<open>\<^verbatim>\<open>x - 1\<close> on \<^verbatim>\<open>size_t\<close>\<close>
  "size_dec x = (if x = 0 then SIZE_MAX else x - 1)"

definition size_inc :: "nat \<Rightarrow> nat" where
  \<comment> \<open>\<^verbatim>\<open>x + 1\<close> on \<^verbatim>\<open>size_t\<close>\<close>
  "size_inc x = (if x = SIZE_MAX then 0 else x + 1)"

definition cstr :: "char list \<Rightarrow> char list" where
  \<comment> \<open>the C string that starts a region: its bytes up to the first null byte\<close>
  "cstr s = takeWhile (\<lambda>x. x \<noteq> NUL) s"

definition strlen :: "char list \<Rightarrow> nat" where
  "strlen s = length (cstr s)"


definition strncpy :: "char list \<Rightarrow> char list \<Rightarrow> nat \<Rightarrow> char list" where
  \<comment> \<open>the first \<open>n\<close> bytes of \<open>dest\<close> become the string, padded with null bytes\<close>
  "strncpy dest src n = take n (cstr src @ replicate n NUL) @ drop n dest"

subsection \<open>Fields\<close>

record csv_field =
  text_f :: "char list"
  length_f :: nat

definition set_field :: "csv_field \<Rightarrow> char list \<Rightarrow> int \<times> csv_field" where
  "set_field field txt =
     (0, field\<lparr>length_f := strlen txt + 1, text_f := cstr txt\<rparr>)"

definition create_field :: csv_field where
  "create_field = snd (set_field \<lparr>text_f = [], length_f = 0\<rparr> [NUL])"

definition field_ok :: "csv_field \<Rightarrow> bool" where
  \<comment> \<open>what \<^verbatim>\<open>set_field\<close> establishes: a terminated string and its size\<close>
  "field_ok f = (NUL \<notin> set (text_f f) \<and> length_f f = length (text_f f) + 1)"

subsection \<open>Buffers\<close>

record csv_buffer =
  field :: "csv_field list list"
  field_delim :: char
  text_delim :: char

definition rows :: "csv_buffer \<Rightarrow> nat" where
  "rows buffer = length (field buffer)"

definition width :: "csv_buffer \<Rightarrow> nat \<Rightarrow> nat" where
  "width buffer row = length (field buffer ! row)"

definition csv_create_buffer :: csv_buffer where
  "csv_create_buffer = \<lparr>field = [], field_delim = CHR 0x2C, text_delim = CHR 0x22\<rparr>"



definition cell :: "csv_buffer \<Rightarrow> nat \<Rightarrow> nat \<Rightarrow> csv_field" where
  \<comment> \<open>\<^verbatim>\<open>buffer->field[row][entry]\<close>, for an index pair in range\<close>
  "cell buffer row entry = field buffer ! row ! entry"

definition in_range :: "csv_buffer \<Rightarrow> nat \<Rightarrow> nat \<Rightarrow> bool" where
  "in_range buffer row entry = (row < rows buffer \<and> entry < width buffer row)"


definition widths_ok :: "csv_buffer \<Rightarrow> bool" where
  \<comment> \<open>the width invariant: no row without a field\<close>
  "widths_ok buffer = (\<forall>r \<in> set (field buffer). 1 \<le> length r)"

subsection \<open>Accessors\<close>

definition csv_get_field ::
  "char list \<Rightarrow> nat \<Rightarrow> csv_buffer \<Rightarrow> nat \<Rightarrow> nat \<Rightarrow> (int \<times> char list) option" where
  \<comment> \<open>returns the code and the bytes of \<open>dest\<close> afterwards\<close>
  "csv_get_field dest dest_len src row entry =
     (if dest_len = 0 then Some (3, dest)
      else if row \<ge> rows src \<or> entry \<ge> width src row then
        (if length dest = 0 then None
         else Some (2, fold (\<lambda>i d. d[0 := NUL]) [0..<dest_len] dest))
      else if length dest \<le> dest_len then None
      else
        let dest' = (strncpy dest (text_f (cell src row entry)) dest_len)[dest_len := NUL]
        in if length_f (cell src row entry) > dest_len + 1 then Some (1, dest')
           else if length_f (cell src row entry) = 0 then Some (2, dest')
           else Some (0, dest'))"

definition csv_get_height :: "csv_buffer \<Rightarrow> nat" where
  "csv_get_height buffer = rows buffer"

definition csv_get_width :: "csv_buffer \<Rightarrow> nat \<Rightarrow> nat option" where
  "csv_get_width buffer row =
     (if row > size_dec (rows buffer) then Some 0
      else if row < rows buffer then Some (width buffer row)
      else None)"

definition csv_get_field_length :: "csv_buffer \<Rightarrow> nat \<Rightarrow> nat \<Rightarrow> nat option" where
  "csv_get_field_length buffer row entry =
     (if row > size_dec (rows buffer) then Some 0
      else if \<not> row < rows buffer then None
      else if entry > size_dec (width buffer row) then Some 0
      else if \<not> entry < width buffer row then None
      else Some (size_dec (length_f (cell buffer row entry))))"

subsection \<open>Mutator primitives\<close>

text \<open>
  An allocator lists the outcomes of the successive \<^verbatim>\<open>realloc\<close> calls whose result the
  code tests; once the list is used up every call succeeds, so \<open>[]\<close> is the allocator
  that never fails.
\<close>

type_synonym allocator = "bool list"

fun realloc :: "allocator \<Rightarrow> bool \<times> allocator" where
  "realloc [] = (True, [])"
| "realloc (ok # a) = (ok, a)"

definition realloc_size :: "allocator \<Rightarrow> nat \<Rightarrow> bool \<times> allocator" where
  \<comment> \<open>\<^verbatim>\<open>realloc\<close> for an array of \<open>n\<close> elements: whether the result is non-null\<close>
  "realloc_size a n = (if n = 0 then (False, a) else realloc a)"

definition append_field ::
  "allocator \<Rightarrow> csv_buffer \<Rightarrow> nat \<Rightarrow> (int \<times> csv_buffer \<times> allocator) option" where
  "append_field a buffer row =
     (if rows buffer < size_inc row then Some (1, buffer, a)
      else if \<not> row < rows buffer then None
      else
        (case realloc a of
           (False, a') \<Rightarrow> Some (2, buffer, a')
         | (True, a') \<Rightarrow>
             Some (0,
               buffer\<lparr>field := (field buffer)[row := field buffer ! row @ [create_field]]\<rparr>,
               a')))"

definition append_row ::
  "allocator \<Rightarrow> csv_buffer \<Rightarrow> (int \<times> csv_buffer \<times> allocator) option" where
  "append_row a buffer =
     (let row = rows buffer in
      case realloc a of
        (False, a1) \<Rightarrow> Some (1, buffer, a1)
      | (True, a1) \<Rightarrow>
          (case realloc a1 of
             (False, a2) \<Rightarrow> Some (2, buffer, a2)
           | (True, a2) \<Rightarrow>
               (case append_field a2 (buffer\<lparr>field := field buffer @ [[]]\<rparr>) row of
                  None \<Rightarrow> None
                | Some (_, buffer', a3) \<Rightarrow> Some (0, buffer', a3))))"

definition put_cell :: "csv_buffer \<Rightarrow> nat \<Rightarrow> nat \<Rightarrow> csv_field \<Rightarrow> csv_buffer" where
  \<comment> \<open>the buffer after a write through the pointer \<^verbatim>\<open>buffer->field[row][entry]\<close>\<close>
  "put_cell buffer row entry f =
     buffer\<lparr>field := (field buffer)[row := (field buffer ! row)[entry := f]]\<rparr>"

function remove_last_field :: "csv_buffer \<Rightarrow> nat \<Rightarrow> (int \<times> csv_buffer) option"
  and csv_clear_field :: "csv_buffer \<Rightarrow> nat \<Rightarrow> nat \<Rightarrow> (int \<times> csv_buffer) option" where
  "remove_last_field buffer row =
     (if \<not> row < rows buffer then None
      else
        let entry = size_dec (width buffer row) in
        if row > size_dec (rows buffer) then Some (0, buffer)
        else if width buffer row = 0 then Some (1, buffer)
        else if width buffer row = 1 then
          (case csv_clear_field buffer row 0 of
             None \<Rightarrow> None
           | Some (_, buffer') \<Rightarrow> Some (0, buffer'))
        else
          Some (0, buffer\<lparr>field := (field buffer)[row := take entry (field buffer ! row)]\<rparr>))"
| "csv_clear_field buffer row entry =
     (if rows buffer < size_inc row then Some (0, buffer)
      else if \<not> row < rows buffer then None
      else if width buffer row < size_inc entry then Some (0, buffer)
      else if entry = size_dec (width buffer row) \<and> entry \<noteq> 0 then
        (case remove_last_field buffer row of
           None \<Rightarrow> None
         | Some (_, buffer') \<Rightarrow> Some (0, buffer'))
      else if \<not> entry < width buffer row then None
      else Some (0, put_cell buffer row entry (snd (set_field (cell buffer row entry) [NUL]))))"
  by pat_completeness auto
termination
  by (relation "measure (\<lambda>x. case x of Inl _ \<Rightarrow> 1 | Inr (_, _, entry) \<Rightarrow> if entry = 0 then 0 else 2)")
     auto

declare remove_last_field.simps [simp del] csv_clear_field.simps [simp del]

function remove_last_row_loop :: "csv_buffer \<Rightarrow> nat \<Rightarrow> int \<Rightarrow> csv_buffer option" where
  "remove_last_row_loop buffer row entry =
     (if entry \<ge> 0 then
        (case remove_last_field buffer row of
           None \<Rightarrow> None
         | Some (_, buffer') \<Rightarrow> remove_last_row_loop buffer' row (entry - 1))
      else Some buffer)"
  by pat_completeness auto
termination
  by (relation "measure (\<lambda>(_, _, entry). nat (entry + 1))") auto

declare remove_last_row_loop.simps [simp del]

definition remove_last_row ::
  "allocator \<Rightarrow> csv_buffer \<Rightarrow> (int \<times> csv_buffer \<times> allocator) option" where
  \<comment> \<open>on the failure path the row stays, cleared; the arrays a failed call freed are not
      modelled\<close>
  "remove_last_row a buffer =
     (if rows buffer = 0 then None
      else
        let row = rows buffer - 1;
            entry = int (width buffer row) - 1
        in case remove_last_row_loop buffer row entry of
             None \<Rightarrow> None
           | Some buffer' \<Rightarrow>
               (case realloc_size a (size_dec (rows buffer')) of
                  (temp_field, a1) \<Rightarrow>
                    (case realloc_size a1 (size_dec (rows buffer')) of
                       (temp_width, a2) \<Rightarrow>
                         if \<not> temp_width \<or> \<not> temp_field then Some (1, buffer', a2)
                         else
                           Some (0,
                             buffer'\<lparr>field := take (rows buffer' - 1) (field buffer')\<rparr>,
                             a2))))"

subsection \<open>Operations built on the primitives\<close>

text \<open>
  A copy reads its source while it writes its destination, and the library calls the
  copy operations with both pointers to one buffer. The source argument is therefore
  \<open>None\<close> when it is the destination itself, and is looked up anew at every read.
\<close>

definition source_of :: "csv_buffer \<Rightarrow> csv_buffer option \<Rightarrow> csv_buffer" where
  "source_of dest source = (case source of None \<Rightarrow> dest | Some s \<Rightarrow> s)"

definition csv_copy_field ::
  "csv_buffer \<Rightarrow> nat \<Rightarrow> nat \<Rightarrow> csv_buffer option \<Rightarrow> nat \<Rightarrow> nat \<Rightarrow> (int \<times> csv_buffer) option" where
  "csv_copy_field dest dest_row dest_entry source source_row source_entry =
     (if \<not> in_range dest dest_row dest_entry
         \<or> \<not> in_range (source_of dest source) source_row source_entry then None
      else
        (case set_field (cell dest dest_row dest_entry)
                (text_f (cell (source_of dest source) source_row source_entry)) of
           (r, f) \<Rightarrow> Some (r, put_cell dest dest_row dest_entry f)))"

definition csv_clear_row :: "csv_buffer \<Rightarrow> nat \<Rightarrow> (int \<times> csv_buffer) option" where
  "csv_clear_row buffer row =
     (if row = size_dec (rows buffer) then
        (case remove_last_row [] buffer of
           None \<Rightarrow> None
         | Some (r, buffer', _) \<Rightarrow> if r \<noteq> 0 then Some (1, buffer') else Some (0, buffer'))
      else if \<not> row < rows buffer then None
      else if width buffer row = 0 then None
      else
        Some (0, buffer\<lparr>field :=
          (field buffer)[row := [snd (set_field (cell buffer row 0) [NUL])]]\<rparr>))"

partial_function (option) csv_copy_row_rows ::
  "csv_buffer \<Rightarrow> nat \<Rightarrow> (int \<times> csv_buffer) option" where
  "csv_copy_row_rows dest dest_row =
     (if rows dest < size_inc dest_row then
        (case append_row [] dest of
           None \<Rightarrow> None
         | Some (r, dest', _) \<Rightarrow>
             if r \<noteq> 0 then Some (1, dest') else csv_copy_row_rows dest' dest_row)
      else Some (0, dest))"

declare csv_copy_row_rows.simps [code]

partial_function (option) csv_copy_row_shrink ::
  "csv_buffer \<Rightarrow> nat \<Rightarrow> csv_buffer option \<Rightarrow> nat \<Rightarrow> (int \<times> csv_buffer) option" where
  "csv_copy_row_shrink dest dest_row source source_row =
     (if \<not> dest_row < rows dest \<or> \<not> source_row < rows (source_of dest source) then None
      else if width dest dest_row > width (source_of dest source) source_row then
        (case remove_last_field dest dest_row of
           None \<Rightarrow> None
         | Some (r, dest') \<Rightarrow>
             if r \<noteq> 0 then Some (1, dest')
             else csv_copy_row_shrink dest' dest_row source source_row)
      else Some (0, dest))"

declare csv_copy_row_shrink.simps [code]

partial_function (option) csv_copy_row_grow ::
  "csv_buffer \<Rightarrow> nat \<Rightarrow> csv_buffer option \<Rightarrow> nat \<Rightarrow> (int \<times> csv_buffer) option" where
  "csv_copy_row_grow dest dest_row source source_row =
     (if \<not> dest_row < rows dest \<or> \<not> source_row < rows (source_of dest source) then None
      else if width dest dest_row < width (source_of dest source) source_row then
        (case append_field [] dest dest_row of
           None \<Rightarrow> None
         | Some (r, dest', _) \<Rightarrow>
             if r \<noteq> 0 then Some (1, dest')
             else csv_copy_row_grow dest' dest_row source source_row)
      else Some (0, dest))"

declare csv_copy_row_grow.simps [code]

partial_function (option) csv_copy_row_fields ::
  "csv_buffer \<Rightarrow> nat \<Rightarrow> csv_buffer option \<Rightarrow> nat \<Rightarrow> nat \<Rightarrow> csv_buffer option" where
  "csv_copy_row_fields dest dest_row source source_row i =
     (if \<not> dest_row < rows dest then None
      else if i < width dest dest_row then
        (case csv_copy_field dest dest_row i source source_row i of
           None \<Rightarrow> None
         | Some (_, dest') \<Rightarrow> csv_copy_row_fields dest' dest_row source source_row (size_inc i))
      else Some dest)"

declare csv_copy_row_fields.simps [code]

definition csv_copy_row ::
  "csv_buffer \<Rightarrow> nat \<Rightarrow> csv_buffer option \<Rightarrow> nat \<Rightarrow> (int \<times> csv_buffer) option" where
  "csv_copy_row dest dest_row source source_row =
     (if source_row > size_dec (rows (source_of dest source)) then
        (case csv_clear_row dest dest_row of
           None \<Rightarrow> None
         | Some (_, dest') \<Rightarrow> Some (0, dest'))
      else
        (case csv_copy_row_rows dest dest_row of
           None \<Rightarrow> None
         | Some (r1, dest1) \<Rightarrow>
             if r1 \<noteq> 0 then Some (1, dest1)
             else
               (case csv_copy_row_shrink dest1 dest_row source source_row of
                  None \<Rightarrow> None
                | Some (r2, dest2) \<Rightarrow>
                    if r2 \<noteq> 0 then Some (1, dest2)
                    else
                      (case csv_copy_row_grow dest2 dest_row source source_row of
                         None \<Rightarrow> None
                       | Some (r3, dest3) \<Rightarrow>
                           if r3 \<noteq> 0 then Some (1, dest3)
                           else
                             (case csv_copy_row_fields dest3 dest_row source source_row 0 of
                                None \<Rightarrow> None
                              | Some dest4 \<Rightarrow> Some (0, dest4))))))"

partial_function (option) csv_remove_row_loop :: "csv_buffer \<Rightarrow> nat \<Rightarrow> csv_buffer option" where
  "csv_remove_row_loop buffer i =
     (if i < size_dec (rows buffer) then
        (case csv_copy_row buffer i None (size_inc i) of
           None \<Rightarrow> None
         | Some (_, buffer') \<Rightarrow> csv_remove_row_loop buffer' (size_inc i))
      else Some buffer)"

declare csv_remove_row_loop.simps [code]

definition csv_remove_row :: "csv_buffer \<Rightarrow> nat \<Rightarrow> (int \<times> csv_buffer) option" where
  "csv_remove_row buffer row =
     (if row > size_dec (rows buffer) then Some (0, buffer)
      else
        (case csv_remove_row_loop buffer row of
           None \<Rightarrow> None
         | Some buffer' \<Rightarrow>
             (case remove_last_row [] buffer' of
                None \<Rightarrow> None
              | Some (_, buffer'', _) \<Rightarrow> Some (0, buffer''))))"

partial_function (option) csv_remove_field_loop ::
  "csv_buffer \<Rightarrow> nat \<Rightarrow> nat \<Rightarrow> csv_buffer option" where
  "csv_remove_field_loop buffer row i =
     (if \<not> row < rows buffer then None
      else if i < size_dec (width buffer row) then
        (case csv_copy_field buffer row i None row (size_inc i) of
           None \<Rightarrow> None
         | Some (_, buffer') \<Rightarrow> csv_remove_field_loop buffer' row (size_inc i))
      else Some buffer)"

declare csv_remove_field_loop.simps [code]

definition csv_remove_field :: "csv_buffer \<Rightarrow> nat \<Rightarrow> nat \<Rightarrow> (int \<times> csv_buffer) option" where
  "csv_remove_field buffer row entry =
     (if row > size_dec (rows buffer) then Some (0, buffer)
      else if \<not> row < rows buffer then None
      else if entry > size_dec (width buffer row) then Some (0, buffer)
      else
        (case csv_remove_field_loop buffer row entry of
           None \<Rightarrow> None
         | Some buffer' \<Rightarrow>
             (case remove_last_field buffer' row of
                None \<Rightarrow> None
              | Some (_, buffer'') \<Rightarrow> Some (0, buffer''))))"

partial_function (option) csv_set_field_rows :: "csv_buffer \<Rightarrow> nat \<Rightarrow> csv_buffer option" where
  "csv_set_field_rows buffer row =
     (if row \<ge> rows buffer then
        (case append_row [] buffer of
           None \<Rightarrow> None
         | Some (_, buffer', _) \<Rightarrow> csv_set_field_rows buffer' row)
      else Some buffer)"

declare csv_set_field_rows.simps [code]

partial_function (option) csv_set_field_fields ::
  "csv_buffer \<Rightarrow> nat \<Rightarrow> nat \<Rightarrow> csv_buffer option" where
  "csv_set_field_fields buffer row entry =
     (if \<not> row < rows buffer then None
      else if entry \<ge> width buffer row then
        (case append_field [] buffer row of
           None \<Rightarrow> None
         | Some (_, buffer', _) \<Rightarrow> csv_set_field_fields buffer' row entry)
      else Some buffer)"

declare csv_set_field_fields.simps [code]

definition csv_set_field ::
  "csv_buffer \<Rightarrow> nat \<Rightarrow> nat \<Rightarrow> char list \<Rightarrow> (int \<times> csv_buffer) option" where
  "csv_set_field buffer row entry txt =
     (case csv_set_field_rows buffer row of
        None \<Rightarrow> None
      | Some buffer1 \<Rightarrow>
          (case csv_set_field_fields buffer1 row entry of
             None \<Rightarrow> None
           | Some buffer2 \<Rightarrow>
               if \<not> in_range buffer2 row entry then None
               else
                 (case set_field (cell buffer2 row entry) txt of
                    (r, f) \<Rightarrow>
                      if r = 0 then Some (0, put_cell buffer2 row entry f)
                      else Some (1, put_cell buffer2 row entry f))))"

partial_function (option) csv_insert_field_loop ::
  "csv_buffer \<Rightarrow> nat \<Rightarrow> nat \<Rightarrow> nat \<Rightarrow> csv_buffer option" where
  "csv_insert_field_loop buffer row entry i =
     (if i > entry then
        (case csv_copy_field buffer row i None row (size_dec i) of
           None \<Rightarrow> None
         | Some (_, buffer') \<Rightarrow> csv_insert_field_loop buffer' row entry (size_dec i))
      else Some buffer)"

declare csv_insert_field_loop.simps [code]

definition csv_insert_field ::
  "csv_buffer \<Rightarrow> nat \<Rightarrow> nat \<Rightarrow> char list \<Rightarrow> (int \<times> csv_buffer) option" where
  "csv_insert_field buffer row entry txt =
     (if row > size_dec (rows buffer) then
        (case csv_set_field buffer row entry txt of
           None \<Rightarrow> None
         | Some (_, buffer') \<Rightarrow> Some (0, buffer'))
      else if \<not> row < rows buffer then None
      else if entry > size_dec (width buffer row) then
        (case csv_set_field buffer row entry txt of
           None \<Rightarrow> None
         | Some (_, buffer') \<Rightarrow> Some (0, buffer'))
      else
        (case append_field [] buffer row of
           None \<Rightarrow> None
         | Some (_, buffer1, _) \<Rightarrow>
             if \<not> row < rows buffer1 then None
             else
               (case csv_insert_field_loop buffer1 row entry (size_dec (width buffer1 row)) of
                  None \<Rightarrow> None
                | Some buffer2 \<Rightarrow>
                    (case csv_set_field buffer2 row entry txt of
                       None \<Rightarrow> None
                     | Some (_, buffer3) \<Rightarrow> Some (0, buffer3)))))"

subsection \<open>Tokenizer\<close>

definition getc :: "char list \<Rightarrow> char \<times> char list" where
  \<comment> \<open>the next byte as a \<^verbatim>\<open>char\<close>, and the stream after it\<close>
  "getc fp = (case fp of [] \<Rightarrow> (EOF, []) | ch # fp' \<Rightarrow> (ch, fp'))"

definition add_char :: "char list \<Rightarrow> nat \<Rightarrow> char \<Rightarrow> char list \<times> nat" where
  \<comment> \<open>the region is resized to \<open>c + 2\<close> bytes, keeping its first \<open>c\<close>\<close>
  "add_char string c ch = (take c string @ [ch, NUL], c + 1)"

function read_text ::
  "char \<Rightarrow> char \<Rightarrow> bool \<Rightarrow> bool \<Rightarrow> nat \<Rightarrow> char list \<Rightarrow> char list
     \<Rightarrow> char list \<times> char \<times> char list" where
  \<comment> \<open>the first loop of \<^verbatim>\<open>read_next_field\<close>: returns \<^verbatim>\<open>tmp\<close>, the last \<^verbatim>\<open>ch\<close> and the stream\<close>
  "read_text field_delim' text_delim' in_text esc c tmp fp =
     (case getc fp of (ch, fp') \<Rightarrow>
        if ch = EOF then (tmp, ch, fp')
        else if \<not> in_text then
          (if ch = text_delim' then read_text field_delim' text_delim' True esc 0 tmp fp'
           else if ch = field_delim' then (tmp, ch, fp')
           else if ch = newline then (tmp, ch, fp')
           else
             (case add_char tmp c ch of (tmp', c') \<Rightarrow>
                read_text field_delim' text_delim' in_text esc c' tmp' fp'))
        else if esc then
          (if ch = text_delim' then
             (case add_char tmp c ch of (tmp', c') \<Rightarrow>
                read_text field_delim' text_delim' in_text False c' tmp' fp')
           else (tmp, ch, fp'))
        else
          (if ch = text_delim' then read_text field_delim' text_delim' in_text True c tmp fp'
           else if ch = field_delim' then
             (case add_char tmp c ch of (tmp', c') \<Rightarrow>
                read_text field_delim' text_delim' in_text esc c' tmp' fp')
           else
             (case add_char tmp c ch of (tmp', c') \<Rightarrow>
                read_text field_delim' text_delim' in_text esc c' tmp' fp')))"
  by pat_completeness auto
termination
  by (relation "measure (\<lambda>(_, _, _, _, _, _, fp). length fp)")
     (auto simp: getc_def split: list.splits)

declare read_text.simps [simp del]

function scan_terminator :: "char \<Rightarrow> char \<Rightarrow> char list \<Rightarrow> int \<times> char list" where
  \<comment> \<open>the second loop: the code, and the stream put back after a peeked byte\<close>
  "scan_terminator field_delim' ch fp =
     (if ch = field_delim' then (0, fp)
      else if ch = newline then
        (case getc fp of (ch', _) \<Rightarrow> if ch' = EOF then (2, fp) else (1, fp))
      else if ch = EOF then (2, fp)
      else (case getc fp of (ch', fp') \<Rightarrow> scan_terminator field_delim' ch' fp'))"
  by pat_completeness auto
termination
  by (relation "measure (\<lambda>(_, ch, fp). length fp + (if ch = EOF then 0 else 1))")
     (auto simp: getc_def split: list.splits)

declare scan_terminator.simps [simp del]

definition read_next_field ::
  "char list \<Rightarrow> char \<Rightarrow> char \<Rightarrow> csv_field \<Rightarrow> int \<times> csv_field \<times> char list" where
  "read_next_field fp field_delim' text_delim' f =
     (case read_text field_delim' text_delim' False False 0 [NUL] fp of
        (tmp, ch, fp1) \<Rightarrow>
          (case scan_terminator field_delim' ch fp1 of
             (retval, fp2) \<Rightarrow> (retval, snd (set_field f tmp), fp2)))"

subsection \<open>Loader\<close>

text \<open>
  The file system answers \<^verbatim>\<open>fopen\<close> with the bytes of the file, or with nothing. The
  result of a load is the code, the buffer, and whether the stream that was opened is
  still open when the call returns.
\<close>

partial_function (option) csv_load_loop ::
  "allocator \<Rightarrow> csv_buffer \<Rightarrow> char list \<Rightarrow> int \<Rightarrow> bool \<Rightarrow> int \<Rightarrow> int
     \<Rightarrow> (int \<times> csv_buffer \<times> bool) option" where
  "csv_load_loop a buffer fp next first i j =
     (case
        (if \<not> first then
           (if 0 \<le> i \<and> 1 \<le> j \<and> in_range buffer (nat i) (nat (j - 1)) then
              (case read_next_field fp (field_delim buffer) (text_delim buffer)
                      (cell buffer (nat i) (nat (j - 1))) of
                 (next', f, fp') \<Rightarrow> Some (next', put_cell buffer (nat i) (nat (j - 1)) f, fp'))
            else None)
         else Some (next, buffer, fp)) of
        None \<Rightarrow> None
      | Some (next', buffer1, fp1) \<Rightarrow>
          if next' = 2 then Some (0, buffer1, False)
          else if next' = 1 then
            (case append_row a buffer1 of
               None \<Rightarrow> None
             | Some (r, buffer2, a') \<Rightarrow>
                 if r \<noteq> 0 then Some (2, buffer2, True)
                 else csv_load_loop a' buffer2 fp1 next' False (i + 1) 1)
          else if next' = 0 then
            (if i < 0 then None
             else
               (case append_field a buffer1 (nat i) of
                  None \<Rightarrow> None
                | Some (r, buffer2, a') \<Rightarrow>
                    if r \<noteq> 0 then Some (2, buffer2, True)
                    else csv_load_loop a' buffer2 fp1 next' False i (j + 1)))
          else csv_load_loop a buffer1 fp1 next' False i j)"

declare csv_load_loop.simps [code]

definition csv_load ::
  "allocator \<Rightarrow> csv_buffer \<Rightarrow> char list option \<Rightarrow> (int \<times> csv_buffer \<times> bool) option" where
  "csv_load a buffer file =
     (case file of
        None \<Rightarrow> Some (1, buffer, False)
      | Some fp \<Rightarrow> csv_load_loop a buffer fp 1 True (- 1) (- 1))"

subsection \<open>Serializer\<close>







subsection \<open>The text of a buffer\<close>








section \<open>Properties\<close>

subsection \<open>Strings and fields\<close>

lemma cstr_id: "NUL \<notin> set s \<Longrightarrow> cstr s = s"
  by (auto simp: cstr_def takeWhile_eq_all_conv)





subsection \<open>Accessors\<close>

text \<open>
  C2. Asked for a cell that does not exist, \<^verbatim>\<open>csv_get_field\<close> returns 2, but its loop
  writes \<^verbatim>\<open>dest[0]\<close> at every iteration: with a capacity of two only the first byte of
  the destination is cleared, the second keeps what it held.
\<close>

theorem csv_get_field_absent_clears_first_byte_only:
  "csv_get_field [CHR ''a'', CHR ''b'', CHR ''c''] 2 csv_create_buffer 0 0
     = Some (2, [NUL, CHR ''b'', CHR ''c''])"
  by (simp add: csv_get_field_def csv_create_buffer_def rows_def numeral_2_eq_2)

text \<open>
  C5. Truncation exactness, as the code has it. The capacity \<open>n\<close> is the length of the
  longest string the destination can hold: the function writes \<open>n + 1\<close> bytes. For a
  cell in range whose text is longer than \<open>n \<ge> 1\<close> and a destination of at least
  \<open>n + 1\<close> bytes, \<^verbatim>\<open>csv_get_field\<close> returns 1, the first \<open>n\<close> bytes of the destination
  are the first \<open>n\<close> bytes of the text, the byte at index \<open>n\<close> is null and the bytes
  after it are untouched.
\<close>

theorem csv_get_field_truncates:
  assumes "in_range src row entry" and "field_ok (cell src row entry)"
    and "1 \<le> n" and "n < length (text_f (cell src row entry))" and "n < length dest"
  shows "csv_get_field dest n src row entry
    = Some (1, take n (text_f (cell src row entry)) @ NUL # drop (Suc n) dest)"
proof -
  let ?t = "text_f (cell src row entry)"
  have t: "cstr ?t = ?t" using assms(2) by (simp add: field_ok_def cstr_id)
  have l: "length_f (cell src row entry) = length ?t + 1" using assms(2) by (simp add: field_ok_def)
  have c: "strncpy dest ?t n = take n ?t @ drop n dest"
    using assms(4) by (simp add: strncpy_def t)
  have u: "(take n ?t @ drop n dest)[n := NUL] = take n ?t @ NUL # drop (Suc n) dest"
    using assms(4,5) by (simp add: list_update_append upd_conv_take_nth_drop drop_Suc drop_tl)
  show ?thesis
    using assms(1,3,4,5) l by (simp add: csv_get_field_def in_range_def Let_def c u)
qed

theorem csv_get_field_truncates_witness:
  "csv_get_field ''xyz'' 2
       (csv_create_buffer\<lparr>field := [[\<lparr>text_f = ''hello'', length_f = 6\<rparr>]]\<rparr>) 0 0
     = Some (1, [CHR ''h'', CHR ''e'', NUL])"
  using csv_get_field_truncates
    [of "csv_create_buffer\<lparr>field := [[\<lparr>text_f = ''hello'', length_f = 6\<rparr>]]\<rparr>" 0 0 2 "''xyz''"]
  by (simp add: in_range_def field_ok_def cell_def rows_def width_def NUL_def)

text \<open>
  C5 as stated fails: into a destination of exactly \<open>n\<close> bytes the function does not
  write \<open>n\<close> bytes and return, it writes a null byte at index \<open>n\<close>, past the end.
\<close>

theorem csv_get_field_truncates_counterexample:
  "csv_get_field ''xy'' 2
       (csv_create_buffer\<lparr>field := [[\<lparr>text_f = ''hello'', length_f = 6\<rparr>]]\<rparr>) 0 0
     = None"
  by (simp add: csv_get_field_def csv_create_buffer_def rows_def width_def)

text \<open>
  C8. On a buffer without rows the test \<^verbatim>\<open>row > buffer->rows - 1\<close> compares with
  \<^verbatim>\<open>SIZE_MAX\<close> and fails, so \<^verbatim>\<open>csv_get_width\<close> and \<^verbatim>\<open>csv_get_field_length\<close> read
  \<^verbatim>\<open>buffer->width[row]\<close> outside the array instead of returning 0.
\<close>

theorem csv_get_width_no_rows_faults:
  "csv_get_width csv_create_buffer 0 = None
     \<and> csv_get_field_length csv_create_buffer 0 0 = None"
  by (simp add: csv_get_width_def csv_get_field_length_def csv_create_buffer_def rows_def
      size_dec_def SIZE_MAX_def)

subsection \<open>Tokenizer\<close>

lemmas char_defs = NUL_def newline_def EOF_def

lemma getc_Cons: "getc (x # fp) = (x, fp)" and getc_Nil: "getc [] = (EOF, [])"
  by (simp_all add: getc_def)

text \<open>
  C3. A text delimiter met while unquoted only resets the counter \<^verbatim>\<open>c\<close>; the bytes in
  \<^verbatim>\<open>tmp\<close> stay until a later \<^verbatim>\<open>add_char\<close> overwrites them. With an empty quoted span
  nothing overwrites them: \<^verbatim>\<open>ab"",c\<close> yields the field \<^verbatim>\<open>ab\<close>. With a character inside
  the quotes they are gone: \<^verbatim>\<open>ab"x",c\<close> yields \<^verbatim>\<open>x\<close>.
\<close>

theorem read_next_field_text_before_empty_quotes_kept:
  "read_next_field [CHR ''a'', CHR ''b'', CHR 0x22, CHR 0x22, CHR 0x2C, CHR ''c'']
       (CHR 0x2C) (CHR 0x22) create_field
     = (0, \<lparr>text_f = ''ab'', length_f = 3\<rparr>, ''c'')
   \<and> read_next_field [CHR ''a'', CHR ''b'', CHR 0x22, CHR ''x'', CHR 0x22, CHR 0x2C, CHR ''c'']
       (CHR 0x2C) (CHR 0x22) create_field
     = (0, \<lparr>text_f = ''x'', length_f = 2\<rparr>, ''c'')"
  by (simp add: read_next_field_def read_text.simps scan_terminator.simps getc_def add_char_def
      set_field_def create_field_def strlen_def cstr_def char_defs)

lemma scan_terminator_skips_to_final_newline:
  assumes "fd \<noteq> newline" and "\<forall>x \<in> set skipped. x \<noteq> fd \<and> x \<noteq> newline \<and> x \<noteq> EOF"
    and "ch # fp = skipped @ [newline]"
  shows "scan_terminator fd ch fp = (2, [])"
  using assms(2,3)
proof (induction skipped arbitrary: ch fp)
  case Nil
  then show ?case using assms(1)
    by (simp add: scan_terminator.simps [of fd newline] getc_Nil)
next
  case (Cons x xs)
  then have ch: "ch = x" and fp: "fp = xs @ [newline]" by simp_all
  obtain ch' fp' where g: "getc fp = (ch', fp')" by (cases "getc fp")
  have "ch' # fp' = xs @ [newline]"
    using g fp by (cases xs) (simp_all add: getc_Cons)
  then have "scan_terminator fd ch' fp' = (2, [])"
    using Cons.IH Cons.prems(1) by simp
  then show ?case
    using Cons.prems(1) ch g by (simp add: scan_terminator.simps [of fd x fp])
qed

text \<open>
  C4. When the field delimiter is not the newline and the terminator scan, after
  skipping bytes that end nothing, reaches a newline that is the last byte of the
  stream, \<^verbatim>\<open>read_next_field\<close> returns 2. The loader then stops at this field: it writes
  the text into the current cell and appends no row.
\<close>

theorem read_next_field_newline_before_end:
  assumes "field_delim buffer \<noteq> newline"
    and "read_text (field_delim buffer) (text_delim buffer) False False 0 [NUL] fp
           = (tmp, ch, fp1)"
    and "ch # fp1 = skipped @ [newline]"
    and "\<forall>x \<in> set skipped. x \<noteq> field_delim buffer \<and> x \<noteq> newline \<and> x \<noteq> EOF"
    and "0 \<le> i" and "1 \<le> j" and "in_range buffer (nat i) (nat (j - 1))"
  shows "fst (read_next_field fp (field_delim buffer) (text_delim buffer) f) = 2
    \<and> csv_load_loop a buffer fp next False i j
        = Some (0, put_cell buffer (nat i) (nat (j - 1))
                     (snd (set_field (cell buffer (nat i) (nat (j - 1))) tmp)), False)"
proof -
  have s: "scan_terminator (field_delim buffer) ch fp1 = (2, [])"
    using assms(1,4,3) by (rule scan_terminator_skips_to_final_newline)
  have r: "read_next_field fp (field_delim buffer) (text_delim buffer) g
             = (2, snd (set_field g tmp), [])" for g
    using assms(2) s by (simp add: read_next_field_def)
  show ?thesis
    using r assms(5-7) by (simp add: csv_load_loop.simps [of a buffer fp])
qed

theorem read_next_field_newline_before_end_witness:
  "csv_load_loop [] (csv_create_buffer\<lparr>field := [[create_field]]\<rparr>) [CHR ''a'', newline]
       1 False 0 1
     = Some (0, csv_create_buffer\<lparr>field := [[\<lparr>text_f = ''a'', length_f = 2\<rparr>]]\<rparr>, False)"
  using read_next_field_newline_before_end
    [of "csv_create_buffer\<lparr>field := [[create_field]]\<rparr>" "[CHR ''a'', newline]"
        "[CHR ''a'', NUL]" newline "[]" "[]" 0 1 create_field "[]" 1]
  by (simp add: read_text.simps getc_def add_char_def csv_create_buffer_def in_range_def
      rows_def width_def cell_def put_cell_def set_field_def create_field_def strlen_def cstr_def
      char_defs)

subsection \<open>Loader: the stream handle\<close>

text \<open>
  C9. When \<^verbatim>\<open>append_row\<close> or \<^verbatim>\<open>append_field\<close> reports an allocation failure,
  \<^verbatim>\<open>csv_load\<close> returns 2 at once, before its \<^verbatim>\<open>fclose\<close>: the stream stays open.
\<close>

theorem csv_load_allocation_failure_leaves_stream_open:
  "csv_load [False] csv_create_buffer (Some ''a'') = Some (2, csv_create_buffer, True)
   \<and> csv_load [True, True, True, False] csv_create_buffer (Some ''a,b'')
       = Some (2, csv_create_buffer\<lparr>field := [[\<lparr>text_f = ''a'', length_f = 2\<rparr>]]\<rparr>, True)
   \<and> csv_load [] csv_create_buffer (Some ''a,b'')
       = Some (0, csv_create_buffer\<lparr>field :=
           [[\<lparr>text_f = ''a'', length_f = 2\<rparr>, \<lparr>text_f = ''b'', length_f = 2\<rparr>]]\<rparr>, False)"
  by (simp add: csv_load_def csv_load_loop.simps append_row_def append_field_def
      read_next_field_def read_text.simps scan_terminator.simps getc_def add_char_def
      set_field_def create_field_def strlen_def cstr_def
      in_range_def rows_def width_def cell_def put_cell_def csv_create_buffer_def
      size_inc_def SIZE_MAX_def char_defs)

subsection \<open>Writing a cell\<close>

lemma size_inc_bounds: "size_inc x \<le> x + 1"
  by (simp add: size_inc_def)

lemma append_field_succeeds:
  "row < rows b \<Longrightarrow>
     append_field [] b row
       = Some (0, b\<lparr>field := (field b)[row := field b ! row @ [create_field]]\<rparr>, [])"
  using size_inc_bounds [of row] by (simp add: append_field_def)

lemma append_row_succeeds:
  "append_row [] b = Some (0, b\<lparr>field := field b @ [[create_field]]\<rparr>, [])"
  by (simp add: append_row_def append_field_succeeds rows_def)

lemma csv_set_field_rows_result:
  "csv_set_field_rows b r
     = Some (b\<lparr>field := field b @ replicate (r + 1 - rows b) [create_field]\<rparr>)"
proof (induction "r + 1 - rows b" arbitrary: b)
  case 0
  then show ?case by (simp add: csv_set_field_rows.simps [of b])
next
  case (Suc n)
  let ?b' = "b\<lparr>field := field b @ [[create_field]]\<rparr>"
  have "n = r + 1 - rows ?b'" using Suc(2) by (simp add: rows_def)
  then have "csv_set_field_rows ?b' r
     = Some (?b'\<lparr>field := field ?b' @ replicate (r + 1 - rows ?b') [create_field]\<rparr>)"
    by (rule Suc(1))
  moreover have "r + 1 - rows b = Suc (r + 1 - rows ?b')" using Suc(2) by (simp add: rows_def)
  ultimately show ?case
    using Suc(2) by (simp add: csv_set_field_rows.simps [of b] append_row_succeeds)
qed

lemma csv_set_field_fields_result:
  "r < rows b \<Longrightarrow>
   csv_set_field_fields b r e
     = Some (b\<lparr>field := (field b)[r := field b ! r @ replicate (e + 1 - width b r) create_field]\<rparr>)"
proof (induction "e + 1 - width b r" arbitrary: b)
  case 0
  then show ?case by (simp add: csv_set_field_fields.simps [of b])
next
  case (Suc n)
  let ?b' = "b\<lparr>field := (field b)[r := field b ! r @ [create_field]]\<rparr>"
  have r': "r < rows ?b'" using Suc(3) by (simp add: rows_def)
  have w: "width ?b' r = width b r + 1" using Suc(3) by (simp add: rows_def width_def)
  have "n = e + 1 - width ?b' r" using Suc(2) w by simp
  then have "csv_set_field_fields ?b' r e
     = Some (?b'\<lparr>field := (field ?b')[r := field ?b' ! r @ replicate (e + 1 - width ?b' r) create_field]\<rparr>)"
    using r' by (rule Suc(1))
  moreover have "e + 1 - width b r = Suc (e + 1 - width ?b' r)" using Suc(2) w by simp
  ultimately show ?case
    using Suc(2,3) by (simp add: csv_set_field_fields.simps [of b] append_field_succeeds rows_def)
qed


lemma csv_set_field_result:
  assumes F1_def: "F1 = field b @ replicate (r + 1 - rows b) [create_field]"
    and F2_def: "F2 = F1[r := F1 ! r @ replicate (e + 1 - length (F1 ! r)) create_field]"
  shows "csv_set_field b r e t
     = Some (0, b\<lparr>field := F2[r := (F2 ! r)[e := snd (set_field (F2 ! r ! e) t)]]\<rparr>)"
    and "r < length F1" and "length F2 = length F1" and "e < length (F2 ! r)"
proof -
  show r1: "r < length F1" by (simp add: F1_def rows_def)
  show r2: "length F2 = length F1" by (simp add: F2_def)
  show e2: "e < length (F2 ! r)" using r1 by (simp add: F2_def)
  have s1: "csv_set_field_rows b r = Some (b\<lparr>field := F1\<rparr>)"
    by (simp add: csv_set_field_rows_result F1_def)
  have s2: "csv_set_field_fields (b\<lparr>field := F1\<rparr>) r e = Some (b\<lparr>field := F2\<rparr>)"
    using r1 by (simp add: csv_set_field_fields_result rows_def width_def F2_def)
  show "csv_set_field b r e t
     = Some (0, b\<lparr>field := F2[r := (F2 ! r)[e := snd (set_field (F2 ! r ! e) t)]]\<rparr>)"
    using r1 r2 e2
    by (simp add: csv_set_field_def s1 s2 in_range_def rows_def width_def cell_def put_cell_def
        set_field_def)
qed

lemma csv_set_field_total: "\<exists>b'. csv_set_field b r e t = Some (0, b')"
  using csv_set_field_result(1) [OF refl refl] by blast

text \<open>
  C7. For every buffer, row, entry and C string \<open>t\<close>, \<^verbatim>\<open>csv_set_field\<close> returns 0; afterwards
  the height is at least \<open>r + 1\<close>, the width of row \<open>r\<close> is at least \<open>e + 1\<close>, the cell
  \<open>(r, e)\<close> holds \<open>t\<close>, and every other cell that existed is still there with the field
  it held.
\<close>

theorem csv_set_field_grows_and_writes:
  assumes "NUL \<notin> set t"
  shows "\<exists>b'. csv_set_field b r e t = Some (0, b')
    \<and> r + 1 \<le> rows b' \<and> e + 1 \<le> width b' r
    \<and> text_f (cell b' r e) = t
    \<and> (\<forall>r' e'. in_range b r' e' \<and> (r', e') \<noteq> (r, e)
          \<longrightarrow> in_range b' r' e' \<and> cell b' r' e' = cell b r' e')"
proof -
  define F1 where "F1 = field b @ replicate (r + 1 - rows b) [create_field]"
  define F2 where "F2 = F1[r := F1 ! r @ replicate (e + 1 - length (F1 ! r)) create_field]"
  define f where "f = snd (set_field (F2 ! r ! e) t)"
  define b' where "b' = b\<lparr>field := F2[r := (F2 ! r)[e := f]]\<rparr>"
  note res0 = csv_set_field_result [OF F1_def F2_def]
  have r1: "r < length F1" and r2: "length F2 = length F1" and e2: "e < length (F2 ! r)"
    by (rule res0)+
  have res: "csv_set_field b r e t = Some (0, b')"
    using res0(1) [of t] by (simp add: b'_def f_def)
  have h: "r + 1 \<le> rows b'" using r1 r2 by (simp add: b'_def rows_def)
  have w: "e + 1 \<le> width b' r" using r1 r2 e2 by (simp add: b'_def width_def)
  have t: "text_f (cell b' r e) = t"
    using r1 r2 e2 assms by (simp add: b'_def cell_def f_def set_field_def cstr_id)
  have keep: "in_range b' r' e' \<and> cell b' r' e' = cell b r' e'"
    if "in_range b r' e'" and "(r', e') \<noteq> (r, e)" for r' e'
  proof -
    from that(1) have r': "r' < length (field b)" and e': "e' < length (field b ! r')"
      by (simp_all add: in_range_def rows_def width_def)
    have f1: "F1 ! r' = field b ! r'" using r' by (simp add: F1_def nth_append)
    have r'1: "r' < length F1" using r' by (simp add: F1_def)
    have f2: "e' < length (F2 ! r') \<and> F2 ! r' ! e' = field b ! r' ! e'"
      using r'1 f1 e' by (cases "r' = r") (simp_all add: F2_def nth_append)
    show ?thesis
      using f2 r'1 r2 that(2)
      by (cases "r' = r") (simp_all add: b'_def in_range_def rows_def width_def cell_def)
  qed
  show ?thesis using res h w t keep by blast
qed

theorem csv_set_field_grows_and_writes_witness:
  "\<exists>b'. csv_set_field (csv_create_buffer\<lparr>field := [[create_field]]\<rparr>) 2 1 ''hi'' = Some (0, b')
    \<and> 3 \<le> rows b' \<and> 2 \<le> width b' 2 \<and> text_f (cell b' 2 1) = ''hi''
    \<and> in_range b' 0 0 \<and> cell b' 0 0 = create_field"
  using csv_set_field_grows_and_writes [of "''hi''" "csv_create_buffer\<lparr>field := [[create_field]]\<rparr>" 2 1]
  by (auto simp: NUL_def in_range_def rows_def width_def cell_def)

subsection \<open>The width invariant\<close>

lemma widths_ok_update:
  "widths_ok b \<Longrightarrow> 1 \<le> length fs \<Longrightarrow> widths_ok (b\<lparr>field := (field b)[row := fs]\<rparr>)"
  unfolding widths_ok_def using set_update_subset_insert [of "field b" row fs] by auto

lemma widths_ok_nth: "widths_ok b \<Longrightarrow> row < rows b \<Longrightarrow> 1 \<le> width b row"
  unfolding widths_ok_def rows_def width_def by (meson nth_mem)

lemma widths_ok_put_cell: "widths_ok b \<Longrightarrow> widths_ok (put_cell b row entry f)"
proof (cases "row < rows b")
  case True
  assume "widths_ok b"
  then show ?thesis
    unfolding put_cell_def using True widths_ok_nth [of b row]
    by (intro widths_ok_update) (simp_all add: width_def)
next
  case False
  assume "widths_ok b"
  then show ?thesis using False by (simp add: put_cell_def rows_def widths_ok_def list_update_beyond)
qed

lemma widths_ok_take: "widths_ok b \<Longrightarrow> widths_ok (b\<lparr>field := take n (field b)\<rparr>)"
  unfolding widths_ok_def by (auto dest: in_set_takeD)

lemma widths_ok_append:
  "widths_ok b \<Longrightarrow> \<forall>fs \<in> set rs. 1 \<le> length fs \<Longrightarrow> widths_ok (b\<lparr>field := field b @ rs\<rparr>)"
  unfolding widths_ok_def by auto

lemma append_field_widths:
  "append_field a b row = Some (c, b', a') \<Longrightarrow> widths_ok b \<Longrightarrow> widths_ok b'"
  by (auto simp: append_field_def widths_ok_update split: if_splits prod.splits bool.splits)

lemma append_row_widths:
  "append_row [] b = Some (c, b', a') \<Longrightarrow> widths_ok b \<Longrightarrow> widths_ok b'"
  by (auto simp: append_row_succeeds widths_ok_append)

lemma rows_put_cell: "rows (put_cell b row entry f) = rows b"
  by (simp add: put_cell_def rows_def)

lemma remove_last_field_cases:
  assumes "remove_last_field b row = Some (c, b')"
  shows "b' = b \<or> (width b row = 1 \<and> b' = put_cell b row 0 (snd (set_field (cell b row 0) [NUL])))
    \<or> (2 \<le> width b row \<and> b' = b\<lparr>field := (field b)[row := take (width b row - 1) (field b ! row)]\<rparr>)"
  using assms
  by (auto simp: remove_last_field.simps [of b row] csv_clear_field.simps [of b row 0] Let_def
      size_dec_def split: if_splits option.splits)

lemma remove_last_field_widths:
  assumes "remove_last_field b row = Some (c, b')" and "widths_ok b"
  shows "widths_ok b' \<and> rows b' = rows b"
proof -
  have "widths_ok (b\<lparr>field := (field b)[row := take (width b row - 1) (field b ! row)]\<rparr>)"
    if "2 \<le> width b row"
    using that assms(2) by (intro widths_ok_update) (simp_all add: width_def)
  moreover have "rows (b\<lparr>field := (field b)[row := fs]\<rparr>) = rows b" for fs
    by (simp add: rows_def)
  ultimately show ?thesis
    using remove_last_field_cases [OF assms(1)] assms(2)
    by (auto simp: widths_ok_put_cell rows_put_cell)
qed

lemma csv_clear_field_widths:
  assumes "csv_clear_field b row entry = Some (c, b')" and "widths_ok b"
  shows "widths_ok b' \<and> rows b' = rows b"
  using assms
  by (auto simp: csv_clear_field.simps [of b row entry] widths_ok_put_cell rows_put_cell
      dest: remove_last_field_widths split: if_splits option.splits)

lemma remove_last_row_loop_widths:
  "remove_last_row_loop b row entry = Some b' \<Longrightarrow> widths_ok b \<Longrightarrow> widths_ok b'"
proof (induction b row entry rule: remove_last_row_loop.induct)
  case (1 buffer row entry)
  show ?case
  proof (cases "entry \<ge> 0")
    case True
    then obtain c b1 where r: "remove_last_field buffer row = Some (c, b1)"
      and l: "remove_last_row_loop b1 row (entry - 1) = Some b'"
      using "1.prems"(1)
      by (auto simp: remove_last_row_loop.simps [of buffer row entry] split: option.splits)
    have "widths_ok b1" using remove_last_field_widths [OF r "1.prems"(2)] by simp
    then show ?thesis using "1.IH" [OF True r refl l] by simp
  next
    case False
    then show ?thesis using "1.prems"
      by (simp add: remove_last_row_loop.simps [of buffer row entry])
  qed
qed

text \<open>
  The last row of a buffer cannot be dropped when it is the only one: both arrays are
  resized to no element, \<^verbatim>\<open>remove_last_row\<close> returns 1 and the row count stays 1, with the
  row cleared. With a row before it the last row is dropped.
\<close>

lemma remove_last_row_single_row:
  "remove_last_row [] (csv_create_buffer\<lparr>field := [[\<lparr>text_f = ''a'', length_f = 2\<rparr>]]\<rparr>)
     = Some (1, csv_create_buffer\<lparr>field := [[create_field]]\<rparr>, [])
   \<and> csv_clear_row (csv_create_buffer\<lparr>field := [[\<lparr>text_f = ''a'', length_f = 2\<rparr>]]\<rparr>) 0
     = Some (1, csv_create_buffer\<lparr>field := [[create_field]]\<rparr>)
   \<and> csv_remove_row (csv_create_buffer\<lparr>field := [[\<lparr>text_f = ''a'', length_f = 2\<rparr>]]\<rparr>) 0
     = Some (0, csv_create_buffer\<lparr>field := [[create_field]]\<rparr>)
   \<and> remove_last_row []
       (csv_create_buffer\<lparr>field := [[create_field], [\<lparr>text_f = ''a'', length_f = 2\<rparr>]]\<rparr>)
     = Some (0, csv_create_buffer\<lparr>field := [[create_field]]\<rparr>, [])"
  by (simp add: remove_last_row_def csv_clear_row_def csv_remove_row_def
      csv_remove_row_loop.simps remove_last_row_loop.simps remove_last_field.simps
      csv_clear_field.simps realloc_size_def put_cell_def cell_def set_field_def create_field_def
      strlen_def cstr_def rows_def width_def csv_create_buffer_def
      size_dec_def size_inc_def SIZE_MAX_def Let_def NUL_def)

lemma remove_last_row_widths:
  "remove_last_row a b = Some (c, b', a') \<Longrightarrow> widths_ok b \<Longrightarrow> widths_ok b'"
  by (auto simp: remove_last_row_def Let_def widths_ok_take
      dest: remove_last_row_loop_widths split: if_splits option.splits prod.splits)

lemma csv_clear_row_widths:
  "csv_clear_row b row = Some (c, b') \<Longrightarrow> widths_ok b \<Longrightarrow> widths_ok b'"
  by (auto simp: csv_clear_row_def widths_ok_update
      dest: remove_last_row_widths split: if_splits option.splits)

lemma csv_copy_field_widths:
  "csv_copy_field d dr de s sr se = Some (c, d') \<Longrightarrow> widths_ok d \<Longrightarrow> widths_ok d'"
  by (auto simp: csv_copy_field_def widths_ok_put_cell split: if_splits prod.splits)

lemma csv_copy_row_rows_widths:
  assumes "csv_copy_row_rows d r = Some y"
  shows "widths_ok d \<longrightarrow> widths_ok (snd y)"
  by (rule csv_copy_row_rows.raw_induct [where P = "\<lambda>d r y. widths_ok d \<longrightarrow> widths_ok (snd y)", OF _ assms])
     (fastforce simp: append_row_succeeds widths_ok_append split: if_splits)

lemma csv_copy_row_shrink_widths:
  assumes "csv_copy_row_shrink d r s sr = Some y"
  shows "widths_ok d \<longrightarrow> widths_ok (snd y)"
  by (rule csv_copy_row_shrink.raw_induct [where P = "\<lambda>d r s sr y. widths_ok d \<longrightarrow> widths_ok (snd y)", OF _ assms])
     (fastforce dest: remove_last_field_widths split: if_splits option.splits)

lemma csv_copy_row_grow_widths:
  assumes "csv_copy_row_grow d r s sr = Some y"
  shows "widths_ok d \<longrightarrow> widths_ok (snd y)"
  by (rule csv_copy_row_grow.raw_induct [where P = "\<lambda>d r s sr y. widths_ok d \<longrightarrow> widths_ok (snd y)", OF _ assms])
     (fastforce dest: append_field_widths split: if_splits option.splits)

lemma csv_copy_row_fields_widths:
  assumes "csv_copy_row_fields d r s sr i = Some d'"
  shows "widths_ok d \<longrightarrow> widths_ok d'"
  by (rule csv_copy_row_fields.raw_induct [where P = "\<lambda>d r s sr i d'. widths_ok d \<longrightarrow> widths_ok d'", OF _ assms])
     (fastforce dest: csv_copy_field_widths split: if_splits option.splits)

lemma csv_copy_row_widths:
  assumes "csv_copy_row d r s sr = Some (c, d')" and "widths_ok d"
  shows "widths_ok d'"
proof (cases "sr > size_dec (rows (source_of d s))")
  case True
  then show ?thesis using assms
    by (auto simp: csv_copy_row_def dest: csv_clear_row_widths split: option.splits)
next
  case False
  then obtain r1 d1 where s1: "csv_copy_row_rows d r = Some (r1, d1)"
    using assms(1) by (auto simp: csv_copy_row_def split: option.splits)
  have w1: "widths_ok d1" using csv_copy_row_rows_widths [OF s1] assms(2) by simp
  show ?thesis
  proof (cases "r1 = 0")
    case r1: True
    then obtain r2 d2 where s2: "csv_copy_row_shrink d1 r s sr = Some (r2, d2)"
      using assms(1) False s1 by (auto simp: csv_copy_row_def split: option.splits)
    have w2: "widths_ok d2" using csv_copy_row_shrink_widths [OF s2] w1 by simp
    show ?thesis
    proof (cases "r2 = 0")
      case r2: True
      then obtain r3 d3 where s3: "csv_copy_row_grow d2 r s sr = Some (r3, d3)"
        using assms(1) False s1 s2 r1 by (auto simp: csv_copy_row_def split: option.splits)
      have w3: "widths_ok d3" using csv_copy_row_grow_widths [OF s3] w2 by simp
      show ?thesis
      proof (cases "r3 = 0")
        case True
        then obtain d4 where s4: "csv_copy_row_fields d3 r s sr 0 = Some d4" and "d' = d4"
          using assms(1) False s1 s2 s3 r1 r2
          by (auto simp: csv_copy_row_def split: option.splits)
        then show ?thesis using csv_copy_row_fields_widths [OF s4] w3 by simp
      next
        case False
        then show ?thesis using assms(1) \<open>\<not> sr > size_dec (rows (source_of d s))\<close> s1 s2 s3 r1 r2 w3
          by (auto simp: csv_copy_row_def split: option.splits)
      qed
    next
      case False
      then show ?thesis using assms(1) \<open>\<not> sr > size_dec (rows (source_of d s))\<close> s1 s2 r1 w2
        by (auto simp: csv_copy_row_def split: option.splits)
    qed
  next
    case False
    then show ?thesis using assms(1) \<open>\<not> sr > size_dec (rows (source_of d s))\<close> s1 w1
      by (auto simp: csv_copy_row_def split: option.splits)
  qed
qed

lemma csv_remove_row_loop_widths:
  assumes "csv_remove_row_loop b i = Some b'"
  shows "widths_ok b \<longrightarrow> widths_ok b'"
  by (rule csv_remove_row_loop.raw_induct [where P = "\<lambda>b i b'. widths_ok b \<longrightarrow> widths_ok b'", OF _ assms])
     (fastforce dest: csv_copy_row_widths split: if_splits option.splits)

lemma csv_remove_row_widths:
  "csv_remove_row b row = Some (c, b') \<Longrightarrow> widths_ok b \<Longrightarrow> widths_ok b'"
  by (auto simp: csv_remove_row_def dest: csv_remove_row_loop_widths remove_last_row_widths
      split: if_splits option.splits)

lemma csv_remove_field_loop_widths:
  assumes "csv_remove_field_loop b row i = Some b'"
  shows "widths_ok b \<longrightarrow> widths_ok b'"
  by (rule csv_remove_field_loop.raw_induct [where P = "\<lambda>b row i b'. widths_ok b \<longrightarrow> widths_ok b'", OF _ assms])
     (fastforce dest: csv_copy_field_widths split: if_splits option.splits)

lemma csv_remove_field_widths:
  "csv_remove_field b row entry = Some (c, b') \<Longrightarrow> widths_ok b \<Longrightarrow> widths_ok b'"
  by (auto simp: csv_remove_field_def
      dest: csv_remove_field_loop_widths remove_last_field_widths
      split: if_splits option.splits)

lemma csv_set_field_rows_widths:
  assumes "csv_set_field_rows b row = Some b'"
  shows "widths_ok b \<longrightarrow> widths_ok b'"
  by (rule csv_set_field_rows.raw_induct [where P = "\<lambda>b row b'. widths_ok b \<longrightarrow> widths_ok b'", OF _ assms])
     (fastforce simp: append_row_succeeds widths_ok_append split: if_splits)

lemma csv_set_field_fields_widths:
  assumes "csv_set_field_fields b row entry = Some b'"
  shows "widths_ok b \<longrightarrow> widths_ok b'"
  by (rule csv_set_field_fields.raw_induct [where P = "\<lambda>b row entry b'. widths_ok b \<longrightarrow> widths_ok b'", OF _ assms])
     (fastforce dest: append_field_widths split: if_splits option.splits)

lemma csv_set_field_widths:
  "csv_set_field b row entry t = Some (c, b') \<Longrightarrow> widths_ok b \<Longrightarrow> widths_ok b'"
  by (auto simp: csv_set_field_def widths_ok_put_cell
      dest!: csv_set_field_rows_widths csv_set_field_fields_widths
      split: if_splits option.splits prod.splits)

lemma csv_insert_field_loop_widths:
  assumes "csv_insert_field_loop b row entry i = Some b'"
  shows "widths_ok b \<longrightarrow> widths_ok b'"
  by (rule csv_insert_field_loop.raw_induct [where P = "\<lambda>b row entry i b'. widths_ok b \<longrightarrow> widths_ok b'", OF _ assms])
     (fastforce dest: csv_copy_field_widths split: if_splits option.splits)

lemma csv_insert_field_widths:
  "csv_insert_field b row entry t = Some (c, b') \<Longrightarrow> widths_ok b \<Longrightarrow> widths_ok b'"
  by (auto simp: csv_insert_field_def
      dest!: csv_insert_field_loop_widths csv_set_field_widths append_field_widths
      split: if_splits option.splits)

text \<open>
  With every allocation succeeding the nine operations keep the width invariant, whatever
  their arguments and their return code.
\<close>

lemma widths_ok_preserved:
  assumes "widths_ok b"
  shows "(\<forall>c b' a'. append_row [] b = Some (c, b', a') \<longrightarrow> widths_ok b')
    \<and> (\<forall>a row c b' a'. append_field a b row = Some (c, b', a') \<longrightarrow> widths_ok b')
    \<and> (\<forall>row c b'. remove_last_field b row = Some (c, b') \<longrightarrow> widths_ok b')
    \<and> (\<forall>row entry t c b'. csv_set_field b row entry t = Some (c, b') \<longrightarrow> widths_ok b')
    \<and> (\<forall>row entry t c b'. csv_insert_field b row entry t = Some (c, b') \<longrightarrow> widths_ok b')
    \<and> (\<forall>row entry c b'. csv_remove_field b row entry = Some (c, b') \<longrightarrow> widths_ok b')
    \<and> (\<forall>row entry c b'. csv_clear_field b row entry = Some (c, b') \<longrightarrow> widths_ok b')
    \<and> (\<forall>row c b'. csv_clear_row b row = Some (c, b') \<longrightarrow> widths_ok b')
    \<and> (\<forall>row c b'. csv_remove_row b row = Some (c, b') \<longrightarrow> widths_ok b')"
proof -
  note pres = append_row_widths append_field_widths remove_last_field_widths [THEN conjunct1]
    csv_set_field_widths csv_insert_field_widths csv_remove_field_widths
    csv_clear_field_widths [THEN conjunct1] csv_clear_row_widths csv_remove_row_widths
  show ?thesis
    by (intro conjI allI impI) (erule pres, rule assms)+
qed

text \<open>
  C6. \<^verbatim>\<open>append_row\<close> calls \<^verbatim>\<open>append_field\<close> to give the new row its first field and does
  not look at the result. When the allocation in \<^verbatim>\<open>append_field\<close> fails, \<^verbatim>\<open>append_row\<close>
  still returns 0 and the buffer, whose rows all had a field, now has a row without one.
  The loader, given that buffer, reads \<^verbatim>\<open>buffer->field[0][0]\<close> of a row that has no
  field.
\<close>

theorem append_row_leaves_row_without_field:
  "rows csv_create_buffer = 0
   \<and> append_row [True, True, False] csv_create_buffer
       = Some (0, csv_create_buffer\<lparr>field := [[]]\<rparr>, [])
   \<and> rows (csv_create_buffer\<lparr>field := [[]]\<rparr>) = 1
   \<and> width (csv_create_buffer\<lparr>field := [[]]\<rparr>) 0 = 0
   \<and> csv_load [True, True, False] csv_create_buffer (Some ''a'') = None"
  by (simp add: width_def append_row_def append_field_def rows_def
      csv_create_buffer_def size_inc_def SIZE_MAX_def csv_load_def csv_load_loop.simps
      in_range_def)

subsection \<open>Fields stay well formed\<close>





































subsection \<open>The serializer writes the text of the buffer\<close>







subsection \<open>The tokenizer reads a written field back\<close>










subsection \<open>The loader rebuilds the rows\<close>







subsection \<open>Round trip\<close>




end
